theory Spec2Isabelle
  imports
    Main
    "HOL-Library.Multiset"
    "HOL-Library.Char_ord"
    "HOL-Library.List_Lexorder"
    "HOL-Library.AList"
begin

section \<open>Strings\<close>

text \<open>
  A Python \<open>str\<close> is a sequence of code points. The notebook's string operations are
  modelled on \<^typ>\<open>string\<close>, a \<^typ>\<open>char\<close> being read as one of the code points
  U+0000 .. U+00FF (Latin-1), compared by code point.
\<close>

text \<open>\<open>str.isspace\<close> on one character, for the code points below U+0100.\<close>

definition isspace :: "char \<Rightarrow> bool" where
  "isspace c =
     (let n = (of_char c :: nat)
      in (9 \<le> n \<and> n \<le> 13) \<or> (28 \<le> n \<and> n \<le> 32) \<or> n = 133 \<or> n = 160)"

text \<open>\<open>s.replace(' ', '')\<close>: every occurrence of the space character U+0020 is deleted.\<close>

definition replace_space :: "string \<Rightarrow> string" where
  "replace_space s = filter (\<lambda>c. c \<noteq> CHR '' '') s"

text \<open>\<open>str.lower\<close>: A..Z and the Latin-1 capitals U+00C0..U+00DE (but U+00D7) move up by 32.\<close>

definition lower_char :: "char \<Rightarrow> char" where
  "lower_char c =
     (let n = (of_char c :: nat)
      in if (65 \<le> n \<and> n \<le> 90) \<or> (192 \<le> n \<and> n \<le> 222 \<and> n \<noteq> 215)
         then char_of (n + 32) else c)"

definition lower :: "string \<Rightarrow> string" where
  "lower s = map lower_char s"

text \<open>\<open>str.strip()\<close>: leading and trailing whitespace is dropped.\<close>

definition strip :: "string \<Rightarrow> string" where
  "strip s = rev (dropWhile isspace (rev (dropWhile isspace s)))"

text \<open>
  \<open>re.sub(r'\(.*?\)', '', s)\<close>. The pattern matches an opening parenthesis, then as few
  characters as possible other than a newline, then a closing parenthesis. \<open>find_close\<close>
  looks for that closing parenthesis after an opening one and returns what follows it.
\<close>

fun find_close :: "string \<Rightarrow> string option" where
  "find_close [] = None"
| "find_close (c # cs) =
     (if c = CHR 0x29 then Some cs
      else if c = CHR 0x0A then None
      else find_close cs)"

function sub_parens :: "string \<Rightarrow> string" where
  "sub_parens [] = []"
| "sub_parens (c # cs) =
     (if c = CHR 0x28
      then (case find_close cs of
              Some r \<Rightarrow> sub_parens r
            | None \<Rightarrow> c # sub_parens cs)
      else c # sub_parens cs)"
  by pat_completeness auto
termination
proof (relation "measure length")
  fix c :: char and cs r :: string
  assume "find_close cs = Some r"
  then have "length r < length cs"
    by (induction cs) (auto split: if_splits)
  then show "(r, c # cs) \<in> measure length"
    by simp
qed simp_all

section \<open>Data frames\<close>

text \<open>
  A cell of a \<open>pandas.DataFrame\<close> read from a CSV file or a workbook: a string, a
  number, or the missing value.
\<close>

datatype cell = Str string | Num int | NaN

text \<open>A data frame: its columns in order, each a label and the cells of its rows.\<close>

type_synonym dataframe = "(string \<times> cell list) list"

text \<open>
  What the notebook's pandas calls raise: \<open>KeyError\<close> carries the labels that were not
  found among the columns, \<open>AttributeError\<close> is the \<open>.str\<close> accessor on a column that
  holds no strings, \<open>ParseError\<close> is \<open>pd.to_datetime\<close> on a date it cannot read.
\<close>

datatype error = KeyError "string list" | AttributeError | ParseError

definition nrows :: "dataframe \<Rightarrow> nat" where
  "nrows df = (case df of [] \<Rightarrow> 0 | (n, col) # _ \<Rightarrow> length col)"

text \<open>\<open>df[[l1, ..., lk]]\<close>: the listed columns in the listed order; any label that is
  not a column raises a \<open>KeyError\<close> that lists the labels not found.\<close>

definition getitem_list :: "dataframe \<Rightarrow> string list \<Rightarrow> error + dataframe" where
  "getitem_list df labels =
     (let missing = filter (\<lambda>l. map_of df l = None) labels
      in if missing \<noteq> [] then Inl (KeyError missing)
         else Inr (List.map_filter (\<lambda>l. map_option (Pair l) (map_of df l)) labels))"

text \<open>\<open>df[l]\<close>: one column.\<close>

definition getitem :: "dataframe \<Rightarrow> string \<Rightarrow> error + cell list" where
  "getitem df l = (case map_of df l of None \<Rightarrow> Inl (KeyError [l]) | Some col \<Rightarrow> Inr col)"

text \<open>\<open>df[l] = col\<close>: the column is replaced where it stands, or added as the last one.\<close>

definition setitem :: "dataframe \<Rightarrow> string \<Rightarrow> cell list \<Rightarrow> dataframe" where
  "setitem df l col = AList.update l col df"

text \<open>\<open>df.rename(columns=m)\<close>: labels found in \<open>m\<close> are replaced, the others stay.\<close>

definition rename :: "(string \<times> string) list \<Rightarrow> dataframe \<Rightarrow> dataframe" where
  "rename m df = map (\<lambda>(l, col). (case map_of m l of Some l' \<Rightarrow> l' | None \<Rightarrow> l, col)) df"

text \<open>
  The \<open>.str\<close> accessor. A column read from a file holds Python objects when it is empty
  or some cell is a string; on any other column \<open>.str\<close> raises. A string method maps the
  string cells and gives the missing value on every other cell.
\<close>

definition is_str :: "cell \<Rightarrow> bool" where
  "is_str c = (case c of Str _ \<Rightarrow> True | _ \<Rightarrow> False)"

definition str_method :: "(string \<Rightarrow> string) \<Rightarrow> cell \<Rightarrow> cell" where
  "str_method f c = (case c of Str s \<Rightarrow> Str (f s) | _ \<Rightarrow> NaN)"

definition str_accessor :: "(string \<Rightarrow> string) \<Rightarrow> cell list \<Rightarrow> error + cell list" where
  "str_accessor f col =
     (if col = [] \<or> list_ex is_str col then Inr (map (str_method f) col)
      else Inl AttributeError)"

text \<open>\<open>df[l] = df[l].str.f()\<close>, the statement the adapters are made of.\<close>

definition str_assign :: "string \<Rightarrow> (string \<Rightarrow> string) \<Rightarrow> dataframe \<Rightarrow> error + dataframe" where
  "str_assign l f df =
     (case getitem df l of
        Inl e \<Rightarrow> Inl e
      | Inr col \<Rightarrow>
          (case str_accessor f col of
             Inl e \<Rightarrow> Inl e
           | Inr col' \<Rightarrow> Inr (setitem df l col')))"

definition bind :: "error + 'a \<Rightarrow> ('a \<Rightarrow> error + 'b) \<Rightarrow> error + 'b" where
  "bind m f = (case m of Inl e \<Rightarrow> Inl e | Inr x \<Rightarrow> f x)"

section \<open>Source adapters\<close>

definition adjust_wos :: "dataframe \<Rightarrow> error + dataframe" where
  "adjust_wos df0 =
     (let df = setitem df0 ''Database'' (replicate (nrows df0) (Str ''Web of Science''))
      in bind (getitem_list df
                 [''Author Full Names'', ''Article Title'', ''Publication Year'',
                  ''Database'', ''Times Cited, WoS Core''])
        (\<lambda>df. let df = rename [(''Author Full Names'', ''Authors''),
                               (''Article Title'', ''Title''),
                               (''Publication Year'', ''Year''),
                               (''Times Cited, WoS Core'', ''Citations'')] df
              in bind (str_assign ''Authors'' replace_space df)
                (\<lambda>df. bind (str_assign ''Authors'' lower df)
                  (\<lambda>df. str_assign ''Title'' lower df))))"

definition adjust_scopus :: "dataframe \<Rightarrow> error + dataframe" where
  "adjust_scopus df0 =
     bind (getitem_list df0 [''Author full names'', ''Title'', ''Year'', ''Source'', ''Cited by''])
       (\<lambda>df. let df = rename [(''Author full names'', ''Authors''),
                              (''Cited by'', ''Citations''),
                              (''Source'', ''Database'')] df
             in bind (str_assign ''Authors'' replace_space df)
               (\<lambda>df. bind (str_assign ''Authors'' lower df)
                 (\<lambda>df. bind (str_assign ''Title'' lower df)
                   (\<lambda>df. bind (str_assign ''Authors'' sub_parens df)
                     (\<lambda>df. str_assign ''Authors'' strip df)))))"

text \<open>
  \<open>pd.to_datetime(col).dt.year\<close> is pandas' date parser, outside the repository: it is
  the parameter \<open>dt_year\<close>, from a column to the column of its years, or an error.
\<close>

definition adjust_proquest ::
    "(cell list \<Rightarrow> error + cell list) \<Rightarrow> dataframe \<Rightarrow> error + dataframe" where
  "adjust_proquest dt_year df0 =
     bind (getitem_list df0 [''Author'', ''Title'', ''PubDate'', ''Source'', ''Cited by''])
       (\<lambda>df. bind (getitem df ''PubDate'')
         (\<lambda>col. bind (dt_year col)
           (\<lambda>years. let df = setitem df ''PubDate'' years;
                         df = rename [(''Author'', ''Authors''), (''PubDate'', ''Year''),
                                      (''Cited by'', ''Citations''), (''Source'', ''Database'')] df
                     in bind (str_assign ''Authors'' replace_space df)
                       (\<lambda>df. bind (str_assign ''Authors'' lower df)
                         (\<lambda>df. str_assign ''Title'' lower df)))))"

section \<open>Loader\<close>

text \<open>\<open>s.endswith(suffix)\<close>.\<close>

definition endswith :: "string \<Rightarrow> string \<Rightarrow> bool" where
  "endswith s suffix =
     (length suffix \<le> length s \<and> drop (length s - length suffix) s = suffix)"

text \<open>
  \<open>read_file\<close>. The parsers \<open>pd.read_csv\<close> and \<open>pd.read_excel\<close> are parameters: each
  returns a frame or raises an exception of type \<open>'e\<close>. The result is what was printed
  and how the call ended: an exception that leaves the function (\<open>Inl\<close>), a frame, or
  Python's \<open>None\<close> when the body ends without a \<open>return\<close>.
\<close>

definition read_file ::
    "(string \<Rightarrow> 'e + dataframe) \<Rightarrow> (string \<Rightarrow> 'e + dataframe) \<Rightarrow> string
       \<Rightarrow> string list \<times> ('e + dataframe option)" where
  "read_file read_csv read_excel filename =
     (if endswith filename ''.csv''
      then (case read_csv filename of
              Inl e \<Rightarrow> ([], Inl e)
            | Inr df \<Rightarrow> ([], Inr (Some df)))
      else (case read_excel filename of
              Inr df \<Rightarrow> ([], Inr (Some df))
            | Inl e \<Rightarrow> ([''Wrong file format''], Inr None)))"

section \<open>Merged table\<close>

text \<open>
  A row of an adapted frame whose cells are well formed: the text fields hold strings,
  the year a number, the citation count a number or the missing value.
\<close>

record row =
  Authors :: string
  Title :: string
  Year :: int
  Database :: string
  Citations :: "int option"

record table =
  columns :: "string list"
  rows :: "row list"


section \<open>Deduplicator\<close>

text \<open>
  \<open>unidecode\<close> keeps every ASCII character and replaces any other character by its
  entry in the package's transliteration table, the parameter \<open>tab\<close>.
\<close>

definition unidecode :: "(char \<Rightarrow> string) \<Rightarrow> string \<Rightarrow> string" where
  "unidecode tab s = concat (map (\<lambda>c. if (of_char c :: nat) < 128 then [c] else tab c) s)"

text \<open>
  \<open>nargsort\<close>, pandas' indexer behind \<open>sort_values\<close> on one column, with the default
  \<open>na_position='last'\<close>. The missing values are set aside; the others are sorted by
  \<open>numpy.argsort\<close>, the parameter \<open>argsort\<close>, which returns positions of the list it is
  given; for a descending sort they are reversed before and after; the positions of the
  missing values are appended.
\<close>

definition nargsort :: "('a list \<Rightarrow> nat list) \<Rightarrow> bool \<Rightarrow> 'a option list \<Rightarrow> nat list" where
  "nargsort argsort ascending items =
     (let idx = List.enumerate 0 items;
          non_nan = List.map_filter (\<lambda>(i, x). map_option (Pair i) x) idx;
          nan_idx = map fst (filter (\<lambda>(i, x). x = None) idx);
          non_nan = (if ascending then non_nan else rev non_nan);
          non_nan_idx = map fst non_nan;
          non_nans = map snd non_nan;
          indexer = map (\<lambda>j. non_nan_idx ! j) (argsort non_nans);
          indexer = (if ascending then indexer else rev indexer)
      in indexer @ nan_idx)"

text \<open>\<open>df.sort_values(by=..., ascending=...)\<close>: the rows taken at the indexer.\<close>

definition sort_values ::
    "('a list \<Rightarrow> nat list) \<Rightarrow> (row \<Rightarrow> 'a option) \<Rightarrow> bool \<Rightarrow> row list \<Rightarrow> row list" where
  "sort_values argsort by_col ascending rs =
     map (\<lambda>i. rs ! i) (nargsort argsort ascending (map by_col rs))"

text \<open>
  \<open>df.drop_duplicates(["Authors", "Title", "Year"], keep="first")\<close>: a row is dropped
  when an earlier row has the same three fields.
\<close>

definition key :: "row \<Rightarrow> string \<times> string \<times> int" where
  "key r = (Authors r, Title r, Year r)"

fun drop_seen :: "(string \<times> string \<times> int) list \<Rightarrow> row list \<Rightarrow> row list" where
  "drop_seen seen [] = []"
| "drop_seen seen (r # rs) =
     (if key r \<in> set seen then drop_seen seen rs
      else r # drop_seen (key r # seen) rs)"

definition drop_duplicates :: "row list \<Rightarrow> row list" where
  "drop_duplicates rs = drop_seen [] rs"

text \<open>
  \<open>rem_duplicates\<close>. The two assignments \<open>df["Authors"] = ...\<close> and \<open>df["Title"] = ...\<close>
  write into the frame the caller passed; \<open>sort_values\<close>, \<open>drop_duplicates\<close> and the
  column selection return new frames. The first component of the result is the
  caller's frame after the call, the second is the returned tuple.
\<close>

definition rem_duplicates ::
    "(char \<Rightarrow> string) \<Rightarrow> (int list \<Rightarrow> nat list) \<Rightarrow> (string list \<Rightarrow> nat list) \<Rightarrow> table
       \<Rightarrow> table \<times> (table \<times> nat \<times> nat)" where
  "rem_duplicates tab argsort_int argsort_str df0 =
     (let df1 = df0\<lparr>rows := map (\<lambda>r. r\<lparr>Authors := unidecode tab (Authors r)\<rparr>) (rows df0)\<rparr>;
          df2 = df1\<lparr>rows := map (\<lambda>r. r\<lparr>Title := unidecode tab (Title r)\<rparr>) (rows df1)\<rparr>;
          df = df2\<lparr>rows := sort_values argsort_int Citations False (rows df2)\<rparr>;
          df_uniques = df\<lparr>rows := drop_duplicates (rows df)\<rparr>;
          df_uniques = df_uniques\<lparr>columns :=
                          ''Title'' # filter (\<lambda>col. col \<noteq> ''Title'') (columns df_uniques)\<rparr>;
          df_uniques = df_uniques\<lparr>rows :=
                          sort_values argsort_str (\<lambda>r. Some (Title r)) True (rows df_uniques)\<rparr>
      in (df2, (df_uniques, length (rows df_uniques), length (rows df))))"

section \<open>What the library routines promise\<close>

text \<open>
  \<open>numpy.argsort\<close> with the default \<open>kind='quicksort'\<close>: the positions of the list, in an
  order that sorts it. The default kind is not a stable sort, so nothing is promised
  about the order of the positions of equal elements.
\<close>

definition argsort_ok :: "('a::linorder list \<Rightarrow> nat list) \<Rightarrow> bool" where
  "argsort_ok argsort =
     (\<forall>xs. mset (argsort xs) = mset [0..<length xs] \<and> sorted (map (\<lambda>i. xs ! i) (argsort xs)))"


text \<open>Two routines that keep the promise: one leaves equal elements in their order, the
  other reverses them.\<close>

definition stable_argsort :: "'a::linorder list \<Rightarrow> nat list" where
  "stable_argsort xs = sort_key (\<lambda>i. xs ! i) [0..<length xs]"


text \<open>An excerpt of the transliteration table, for the sample inputs: the accented small
  letters of Latin-1; every other entry is left empty here.\<close>

definition latin1_table :: "char \<Rightarrow> string" where
  "latin1_table c =
     (let n = (of_char c :: nat)
      in if 224 \<le> n \<and> n \<le> 229 then ''a''
         else if n = 231 then ''c''
         else if 232 \<le> n \<and> n \<le> 235 then ''e''
         else if 236 \<le> n \<and> n \<le> 239 then ''i''
         else if n = 241 then ''n''
         else if 242 \<le> n \<and> n \<le> 246 then ''o''
         else if 249 \<le> n \<and> n \<le> 252 then ''u''
         else if n = 253 \<or> n = 255 then ''y''
         else [])"

text \<open>The order of a descending sort with the missing values last.\<close>

fun cit_ge :: "int option \<Rightarrow> int option \<Rightarrow> bool" where
  "cit_ge _ None = True"
| "cit_ge None (Some b) = False"
| "cit_ge (Some a) (Some b) = (b \<le> a)"

text \<open>A row after the two \<open>unidecode\<close> assignments, and the key it is grouped by.\<close>

definition unidecode_row :: "(char \<Rightarrow> string) \<Rightarrow> row \<Rightarrow> row" where
  "unidecode_row tab r =
     r\<lparr>Authors := unidecode tab (Authors r), Title := unidecode tab (Title r)\<rparr>"

definition nkey :: "(char \<Rightarrow> string) \<Rightarrow> row \<Rightarrow> string \<times> string \<times> int" where
  "nkey tab r = (unidecode tab (Authors r), unidecode tab (Title r), Year r)"

section \<open>Sample inputs\<close>

definition wos_sample :: dataframe where
  "wos_sample =
     [(''Author Full Names'', [Str ''Smith, John'']), (''Article Title'', [Str ''On Sorting'']),
      (''Publication Year'', [Num 2020]), (''Times Cited, WoS Core'', [Num 7])]"

definition scopus_sample :: dataframe where
  "scopus_sample =
     [(''Author full names'', [Str ''Smith, J. (Dept X)'']), (''Title'', [Str ''On Sorting'']),
      (''Year'', [Num 2020]), (''Source'', [Str ''Scopus'']), (''Cited by'', [Num 3])]"

definition proquest_sample :: dataframe where
  "proquest_sample =
     [(''Author'', [Str ''Smith, John'']), (''Title'', [Str ''On Sorting'']),
      (''PubDate'', [Str ''2021-05-01'']), (''Source'', [Str ''ProQuest'']), (''Cited by'', [NaN])]"

text \<open>A Web of Science export whose author field holds a tab character (U+0009).\<close>

definition wos_tab_sample :: dataframe where
  "wos_tab_sample =
     [(''Author Full Names'', [Str [CHR ''A'', CHR 0x09, CHR ''B'']]),
      (''Article Title'', [Str ''T'']), (''Publication Year'', [Num 2020]),
      (''Times Cited, WoS Core'', [Num 1])]"

text \<open>A Scopus export without its citation column.\<close>

definition scopus_no_cited_by :: dataframe where
  "scopus_no_cited_by =
     [(''Author full names'', [Str ''Smith, J.'']), (''Title'', [Str ''On Sorting'']),
      (''Year'', [Num 2020]), (''Source'', [Str ''Scopus''])]"

text \<open>Exports that lack one of their columns.\<close>

definition wos_no_year :: dataframe where
  "wos_no_year =
     [(''Author Full Names'', [Str ''Smith, John'']), (''Article Title'', [Str ''On Sorting'']),
      (''Times Cited, WoS Core'', [Num 7])]"

definition proquest_no_author :: dataframe where
  "proquest_no_author =
     [(''Title'', [Str ''On Sorting'']), (''PubDate'', [Str ''2021-05-01'']),
      (''Source'', [Str ''ProQuest'']), (''Cited by'', [NaN])]"

text \<open>Rows and tables for the deduplicator.\<close>

definition unified_columns :: "string list" where
  "unified_columns = [''Authors'', ''Title'', ''Year'', ''Database'', ''Citations'']"

definition smith :: "string \<Rightarrow> int option \<Rightarrow> row" where
  "smith d c = \<lparr>Authors = ''smith'', Title = ''x'', Year = 2020, Database = d, Citations = c\<rparr>"


text \<open>Two records of one study with the same citation count, from two sources.\<close>

definition tie_table :: table where
  "tie_table =
     \<lparr>columns = unified_columns,
      rows = [smith ''Web of Science'' (Some 5), smith ''Scopus'' (Some 5)]\<rparr>"

text \<open>A record whose title is the letter e with an acute accent (U+00E9).\<close>

definition accent_table :: table where
  "accent_table =
     \<lparr>columns = unified_columns,
      rows = [\<lparr>Authors = ''smith'', Title = [CHR 0xE9], Year = 2020,
               Database = ''Scopus'', Citations = Some 1\<rparr>]\<rparr>"

text \<open>Four records, two of them of one study, one without a citation count.\<close>

definition mixed_table :: table where
  "mixed_table =
     \<lparr>columns = unified_columns,
      rows = [smith ''Web of Science'' (Some 5),
              \<lparr>Authors = ''jones'', Title = [CHR 0xE9, CHR ''t'', CHR 0xE9], Year = 2019,
               Database = ''Scopus'', Citations = None\<rparr>,
              smith ''Scopus'' (Some 10),
              \<lparr>Authors = ''lee'', Title = ''a'', Year = 2021,
               Database = ''ProQuest'', Citations = Some 10\<rparr>]\<rparr>"

section \<open>Properties of the adapters\<close>

lemma bind_Inl: "bind (Inl e) f = Inl e"
  by (simp add: bind_def)

lemma bind_Inr_iff: "bind m f = Inr y \<longleftrightarrow> (\<exists>x. m = Inr x \<and> f x = Inr y)"
  by (cases m) (simp_all add: bind_def)

lemma getitem_list_missing:
  "l \<in> set ls \<Longrightarrow> map_of df l = None \<Longrightarrow>
   getitem_list df ls = Inl (KeyError (filter (\<lambda>l. map_of df l = None) ls))"
  by (auto simp: getitem_list_def Let_def filter_empty_conv)

lemma getitem_list_Inr:
  assumes "getitem_list df ls = Inr df'"
  shows "list_all (\<lambda>l. map_of df l \<noteq> None) ls \<and> df' = map (\<lambda>l. (l, the (map_of df l))) ls"
proof -
  from assms have none: "filter (\<lambda>l. map_of df l = None) ls = []"
    and df': "df' = List.map_filter (\<lambda>l. map_option (Pair l) (map_of df l)) ls"
    by (auto simp: getitem_list_def Let_def split: if_splits)
  from none have found: "list_all (\<lambda>l. map_of df l \<noteq> None) ls"
    by (simp add: filter_empty_conv list_all_iff)
  have "List.map_filter (\<lambda>l. map_option (Pair l) (map_of df l)) xs =
          map (\<lambda>l. (l, the (map_of df l))) xs"
    if "list_all (\<lambda>l. map_of df l \<noteq> None) xs" for xs
    using that by (induction xs) (auto simp: List.map_filter_simps)
  with found df' show ?thesis by simp
qed

lemma str_assign_Inr:
  "str_assign l f df = Inr df' \<Longrightarrow>
     \<exists>col. map_of df l = Some col \<and> df' = AList.update l (map (str_method f) col) df"
  by (auto simp: str_assign_def getitem_def str_accessor_def setitem_def
      split: option.splits sum.splits if_splits)

lemma str_method_comp: "str_method g (str_method f c) = str_method (g \<circ> f) c"
  by (simp add: str_method_def split: cell.splits)

text \<open>What each adapter returns when it returns: the five columns, renamed, with the
  text fields rewritten.\<close>

lemma adjust_wos_Inr:
  assumes "adjust_wos df = Inr out"
  shows "\<exists>a t y c. map_of df ''Author Full Names'' = Some a
     \<and> map_of df ''Article Title'' = Some t
     \<and> map_of df ''Publication Year'' = Some y
     \<and> map_of df ''Times Cited, WoS Core'' = Some c
     \<and> out = [(''Authors'', map (str_method (lower \<circ> replace_space)) a),
              (''Title'', map (str_method lower) t), (''Year'', y),
              (''Database'', replicate (nrows df) (Str ''Web of Science'')),
              (''Citations'', c)]"
proof -
  let ?df = "setitem df ''Database'' (replicate (nrows df) (Str ''Web of Science''))"
  from assms obtain d1 d2 d3 where
    sel: "getitem_list ?df [''Author Full Names'', ''Article Title'', ''Publication Year'',
                  ''Database'', ''Times Cited, WoS Core''] = Inr d1"
    and s1: "str_assign ''Authors'' replace_space
               (rename [(''Author Full Names'', ''Authors''), (''Article Title'', ''Title''),
                        (''Publication Year'', ''Year''),
                        (''Times Cited, WoS Core'', ''Citations'')] d1) = Inr d2"
    and s2: "str_assign ''Authors'' lower d2 = Inr d3"
    and s3: "str_assign ''Title'' lower d3 = Inr out"
    unfolding adjust_wos_def Let_def bind_Inr_iff by blast
  from getitem_list_Inr[OF sel] obtain a t y c where
    a: "map_of df ''Author Full Names'' = Some a" and t: "map_of df ''Article Title'' = Some t"
    and y: "map_of df ''Publication Year'' = Some y"
    and c: "map_of df ''Times Cited, WoS Core'' = Some c"
    and d1: "d1 = [(''Author Full Names'', a), (''Article Title'', t), (''Publication Year'', y),
       (''Database'', replicate (nrows df) (Str ''Web of Science'')),
       (''Times Cited, WoS Core'', c)]"
    by (auto simp: setitem_def update_conv)
  from str_assign_Inr[OF s1] have d2: "d2 =
      [(''Authors'', map (str_method replace_space) a), (''Title'', t), (''Year'', y),
       (''Database'', replicate (nrows df) (Str ''Web of Science'')), (''Citations'', c)]"
    by (simp add: d1 rename_def)
  from str_assign_Inr[OF s2] have d3: "d3 =
      [(''Authors'', map (str_method (lower \<circ> replace_space)) a), (''Title'', t), (''Year'', y),
       (''Database'', replicate (nrows df) (Str ''Web of Science'')), (''Citations'', c)]"
    by (simp add: d2 str_method_comp)
  from str_assign_Inr[OF s3] have "out =
      [(''Authors'', map (str_method (lower \<circ> replace_space)) a),
       (''Title'', map (str_method lower) t), (''Year'', y),
       (''Database'', replicate (nrows df) (Str ''Web of Science'')), (''Citations'', c)]"
    by (simp add: d3)
  with a t y c show ?thesis by blast
qed

lemma adjust_scopus_Inr:
  assumes "adjust_scopus df = Inr out"
  shows "\<exists>a t y d c. map_of df ''Author full names'' = Some a \<and> map_of df ''Title'' = Some t
     \<and> map_of df ''Year'' = Some y \<and> map_of df ''Source'' = Some d
     \<and> map_of df ''Cited by'' = Some c
     \<and> out = [(''Authors'',
                 map (str_method (strip \<circ> (sub_parens \<circ> (lower \<circ> replace_space)))) a),
              (''Title'', map (str_method lower) t), (''Year'', y),
              (''Database'', d), (''Citations'', c)]"
proof -
  from assms obtain d1 d2 d3 d4 d5 where
    sel: "getitem_list df
            [''Author full names'', ''Title'', ''Year'', ''Source'', ''Cited by''] = Inr d1"
    and s1: "str_assign ''Authors'' replace_space
               (rename [(''Author full names'', ''Authors''), (''Cited by'', ''Citations''),
                        (''Source'', ''Database'')] d1) = Inr d2"
    and s2: "str_assign ''Authors'' lower d2 = Inr d3"
    and s3: "str_assign ''Title'' lower d3 = Inr d4"
    and s4: "str_assign ''Authors'' sub_parens d4 = Inr d5"
    and s5: "str_assign ''Authors'' strip d5 = Inr out"
    unfolding adjust_scopus_def Let_def bind_Inr_iff by blast
  from getitem_list_Inr[OF sel] obtain a t y d c where
    a: "map_of df ''Author full names'' = Some a" and t: "map_of df ''Title'' = Some t"
    and y: "map_of df ''Year'' = Some y" and d: "map_of df ''Source'' = Some d"
    and c: "map_of df ''Cited by'' = Some c"
    and d1: "d1 = [(''Author full names'', a), (''Title'', t), (''Year'', y),
       (''Source'', d), (''Cited by'', c)]"
    by auto
  from str_assign_Inr[OF s1] have d2: "d2 =
      [(''Authors'', map (str_method replace_space) a), (''Title'', t), (''Year'', y),
       (''Database'', d), (''Citations'', c)]"
    by (simp add: d1 rename_def)
  from str_assign_Inr[OF s2] have d3: "d3 =
      [(''Authors'', map (str_method (lower \<circ> replace_space)) a), (''Title'', t), (''Year'', y),
       (''Database'', d), (''Citations'', c)]"
    by (simp add: d2 str_method_comp)
  from str_assign_Inr[OF s3] have d4: "d4 =
      [(''Authors'', map (str_method (lower \<circ> replace_space)) a),
       (''Title'', map (str_method lower) t), (''Year'', y),
       (''Database'', d), (''Citations'', c)]"
    by (simp add: d3)
  from str_assign_Inr[OF s4] have d5: "d5 =
      [(''Authors'', map (str_method (sub_parens \<circ> (lower \<circ> replace_space))) a),
       (''Title'', map (str_method lower) t), (''Year'', y),
       (''Database'', d), (''Citations'', c)]"
    by (simp add: d4 str_method_comp)
  from str_assign_Inr[OF s5] have "out =
      [(''Authors'', map (str_method (strip \<circ> (sub_parens \<circ> (lower \<circ> replace_space)))) a),
       (''Title'', map (str_method lower) t), (''Year'', y),
       (''Database'', d), (''Citations'', c)]"
    by (simp add: d5 str_method_comp)
  with a t y d c show ?thesis by blast
qed

lemma adjust_proquest_Inr:
  assumes "adjust_proquest dt_year df = Inr out"
  shows "\<exists>a t p y d c. map_of df ''Author'' = Some a \<and> map_of df ''Title'' = Some t
     \<and> map_of df ''PubDate'' = Some p \<and> dt_year p = Inr y
     \<and> map_of df ''Source'' = Some d \<and> map_of df ''Cited by'' = Some c
     \<and> out = [(''Authors'', map (str_method (lower \<circ> replace_space)) a),
              (''Title'', map (str_method lower) t), (''Year'', y),
              (''Database'', d), (''Citations'', c)]"
proof -
  from assms obtain d1 p0 y d2 d3 where
    sel: "getitem_list df [''Author'', ''Title'', ''PubDate'', ''Source'', ''Cited by''] = Inr d1"
    and g: "getitem d1 ''PubDate'' = Inr p0"
    and yr: "dt_year p0 = Inr y"
    and s1: "str_assign ''Authors'' replace_space
               (rename [(''Author'', ''Authors''), (''PubDate'', ''Year''),
                        (''Cited by'', ''Citations''), (''Source'', ''Database'')]
                 (setitem d1 ''PubDate'' y)) = Inr d2"
    and s2: "str_assign ''Authors'' lower d2 = Inr d3"
    and s3: "str_assign ''Title'' lower d3 = Inr out"
    unfolding adjust_proquest_def Let_def bind_Inr_iff by blast
  from getitem_list_Inr[OF sel] obtain a t p d c where
    a: "map_of df ''Author'' = Some a" and t: "map_of df ''Title'' = Some t"
    and p: "map_of df ''PubDate'' = Some p" and d: "map_of df ''Source'' = Some d"
    and c: "map_of df ''Cited by'' = Some c"
    and d1: "d1 = [(''Author'', a), (''Title'', t), (''PubDate'', p),
       (''Source'', d), (''Cited by'', c)]"
    by auto
  from g have p0: "p0 = p" by (simp add: d1 getitem_def)
  from str_assign_Inr[OF s1] have d2: "d2 =
      [(''Authors'', map (str_method replace_space) a), (''Title'', t), (''Year'', y),
       (''Database'', d), (''Citations'', c)]"
    by (simp add: d1 rename_def setitem_def)
  from str_assign_Inr[OF s2] have d3: "d3 =
      [(''Authors'', map (str_method (lower \<circ> replace_space)) a), (''Title'', t), (''Year'', y),
       (''Database'', d), (''Citations'', c)]"
    by (simp add: d2 str_method_comp)
  from str_assign_Inr[OF s3] have "out =
      [(''Authors'', map (str_method (lower \<circ> replace_space)) a),
       (''Title'', map (str_method lower) t), (''Year'', y),
       (''Database'', d), (''Citations'', c)]"
    by (simp add: d3)
  with a t p d c yr p0 show ?thesis by blast
qed

lemma missing_labels:
  assumes "l \<in> set ls" and "map_of df l = None"
  shows "l \<in> set (filter (\<lambda>l. map_of df l = None) ls)"
    and "list_all (\<lambda>m. map_of df m = None) (filter (\<lambda>l. map_of df l = None) ls)"
  using assms by (simp_all add: list_all_iff)

text \<open>
  Claim C9. \<open>adjust_scopus\<close> turns the author field \<open>"Smith, J. (Dept X)"\<close> into exactly
  \<open>"smith,j."\<close>: the spaces are removed, the text is lowercased, the parenthesised
  substring is deleted and the ends are stripped.
\<close>

theorem scopus_author_scenario:
  "adjust_scopus scopus_sample =
     Inr [(''Authors'', [Str ''smith,j.'']), (''Title'', [Str ''on sorting'']),
          (''Year'', [Num 2020]), (''Database'', [Str ''Scopus'']), (''Citations'', [Num 3])]
   \<and> (strip \<circ> (sub_parens \<circ> (lower \<circ> replace_space))) ''Smith, J. (Dept X)'' = ''smith,j.''"
  by code_simp

text \<open>
  Claim C4, as stated, fails: the adapters delete the space character U+0020 only. A tab
  in the author field of a Web of Science export is whitespace and is still there in the
  output.
\<close>

theorem adjust_wos_keeps_tab:
  "adjust_wos wos_tab_sample =
     Inr [(''Authors'', [Str [CHR ''a'', CHR 0x09, CHR ''b'']]), (''Title'', [Str ''t'']),
          (''Year'', [Num 2020]), (''Database'', [Str ''Web of Science'']),
          (''Citations'', [Num 1])]
   \<and> isspace (CHR 0x09)"
  by code_simp

text \<open>
  Claim C4, amended. When an adapter returns, the \<open>Authors\<close> column of its output is the
  source's author column with every space character U+0020 deleted and the text
  lowercased (for \<open>adjust_scopus\<close>, then with every parenthesised substring deleted and
  the ends stripped of whitespace), and the \<open>Title\<close> column is the source's title column
  lowercased; a cell that is not a string becomes the missing value.
\<close>

theorem adapters_normalise_text:
  "(adjust_wos df = Inr out \<longrightarrow>
      map_of out ''Authors'' =
        map_option (map (str_method (lower \<circ> replace_space))) (map_of df ''Author Full Names'')
      \<and> map_of out ''Title'' = map_option (map (str_method lower)) (map_of df ''Article Title''))
   \<and> (adjust_scopus df = Inr out \<longrightarrow>
      map_of out ''Authors'' =
        map_option (map (str_method (strip \<circ> (sub_parens \<circ> (lower \<circ> replace_space)))))
          (map_of df ''Author full names'')
      \<and> map_of out ''Title'' = map_option (map (str_method lower)) (map_of df ''Title''))
   \<and> (adjust_proquest dt_year df = Inr out \<longrightarrow>
      map_of out ''Authors'' =
        map_option (map (str_method (lower \<circ> replace_space))) (map_of df ''Author'')
      \<and> map_of out ''Title'' = map_option (map (str_method lower)) (map_of df ''Title''))"
proof (intro conjI impI)
  assume "adjust_wos df = Inr out"
  from adjust_wos_Inr[OF this] obtain a t y c where
    "map_of df ''Author Full Names'' = Some a" "map_of df ''Article Title'' = Some t"
    "out = [(''Authors'', map (str_method (lower \<circ> replace_space)) a),
              (''Title'', map (str_method lower) t), (''Year'', y),
              (''Database'', replicate (nrows df) (Str ''Web of Science'')),
              (''Citations'', c)]" by blast
  then show "map_of out ''Authors'' =
        map_option (map (str_method (lower \<circ> replace_space))) (map_of df ''Author Full Names'')"
    and "map_of out ''Title'' = map_option (map (str_method lower)) (map_of df ''Article Title'')"
    by simp_all
next
  assume "adjust_scopus df = Inr out"
  from adjust_scopus_Inr[OF this] obtain a t y d c where
    "map_of df ''Author full names'' = Some a" "map_of df ''Title'' = Some t"
    "out = [(''Authors'',
                 map (str_method (strip \<circ> (sub_parens \<circ> (lower \<circ> replace_space)))) a),
              (''Title'', map (str_method lower) t), (''Year'', y),
              (''Database'', d), (''Citations'', c)]" by blast
  then show "map_of out ''Authors'' =
        map_option (map (str_method (strip \<circ> (sub_parens \<circ> (lower \<circ> replace_space)))))
          (map_of df ''Author full names'')"
    and "map_of out ''Title'' = map_option (map (str_method lower)) (map_of df ''Title'')"
    by simp_all
next
  assume "adjust_proquest dt_year df = Inr out"
  from adjust_proquest_Inr[OF this] obtain a t p y d c where
    "map_of df ''Author'' = Some a" "map_of df ''Title'' = Some t"
    "out = [(''Authors'', map (str_method (lower \<circ> replace_space)) a),
              (''Title'', map (str_method lower) t), (''Year'', y),
              (''Database'', d), (''Citations'', c)]" by blast
  then show "map_of out ''Authors'' =
        map_option (map (str_method (lower \<circ> replace_space))) (map_of df ''Author'')"
    and "map_of out ''Title'' = map_option (map (str_method lower)) (map_of df ''Title'')"
    by simp_all
qed

theorem adapters_normalise_text_witness:
  "adjust_wos wos_sample =
     Inr [(''Authors'', [Str ''smith,john'']), (''Title'', [Str ''on sorting'']),
          (''Year'', [Num 2020]), (''Database'', [Str ''Web of Science'']),
          (''Citations'', [Num 7])]
   \<and> map_of [(''Authors'', [Str ''smith,john'']), (''Title'', [Str ''on sorting'']),
          (''Year'', [Num 2020]), (''Database'', [Str ''Web of Science'']),
          (''Citations'', [Num 7])] ''Authors'' =
     map_option (map (str_method (lower \<circ> replace_space)))
       (map_of wos_sample ''Author Full Names'')
   \<and> adjust_scopus scopus_sample =
     Inr [(''Authors'', [Str ''smith,j.'']), (''Title'', [Str ''on sorting'']),
          (''Year'', [Num 2020]), (''Database'', [Str ''Scopus'']), (''Citations'', [Num 3])]
   \<and> map_of [(''Authors'', [Str ''smith,j.'']), (''Title'', [Str ''on sorting'']),
          (''Year'', [Num 2020]), (''Database'', [Str ''Scopus'']), (''Citations'', [Num 3])]
        ''Title'' =
     map_option (map (str_method lower)) (map_of scopus_sample ''Title'')
   \<and> adjust_proquest (\<lambda>col. Inr [Num 2021]) proquest_sample =
     Inr [(''Authors'', [Str ''smith,john'']), (''Title'', [Str ''on sorting'']),
          (''Year'', [Num 2021]), (''Database'', [Str ''ProQuest'']), (''Citations'', [NaN])]
   \<and> map_of [(''Authors'', [Str ''smith,john'']), (''Title'', [Str ''on sorting'']),
          (''Year'', [Num 2021]), (''Database'', [Str ''ProQuest'']), (''Citations'', [NaN])]
        ''Authors'' =
     map_option (map (str_method (lower \<circ> replace_space))) (map_of proquest_sample ''Author'')"
proof -
  have w: "adjust_wos wos_sample =
     Inr [(''Authors'', [Str ''smith,john'']), (''Title'', [Str ''on sorting'']),
          (''Year'', [Num 2020]), (''Database'', [Str ''Web of Science'']),
          (''Citations'', [Num 7])]"
    by code_simp
  have s: "adjust_scopus scopus_sample =
     Inr [(''Authors'', [Str ''smith,j.'']), (''Title'', [Str ''on sorting'']),
          (''Year'', [Num 2020]), (''Database'', [Str ''Scopus'']), (''Citations'', [Num 3])]"
    by code_simp
  have p: "adjust_proquest (\<lambda>col. Inr [Num 2021]) proquest_sample =
     Inr [(''Authors'', [Str ''smith,john'']), (''Title'', [Str ''on sorting'']),
          (''Year'', [Num 2021]), (''Database'', [Str ''ProQuest'']), (''Citations'', [NaN])]"
    by code_simp
  note n = adapters_normalise_text
  from n[THEN conjunct1, THEN mp, OF w] n[THEN conjunct2, THEN conjunct1, THEN mp, OF s]
    n[THEN conjunct2, THEN conjunct2, THEN mp, OF p] w s p
  show ?thesis by blast
qed

text \<open>
  Claim C5. When a column that an adapter selects is absent from the raw table, the
  adapter returns no table: the column selection raises the error that carries the
  labels it did not find (pandas' \<open>KeyError\<close>, the spec's \<open>SchemaMismatch\<close>), the absent
  column is among them, and every label it carries is absent from the table.
\<close>

theorem missing_column_raises:
  "(l \<in> set [''Author Full Names'', ''Article Title'', ''Publication Year'',
              ''Times Cited, WoS Core''] \<and> map_of df l = None \<longrightarrow>
      (\<exists>ms. adjust_wos df = Inl (KeyError ms) \<and> l \<in> set ms
            \<and> list_all (\<lambda>m. map_of df m = None) ms))
   \<and> (l \<in> set [''Author full names'', ''Title'', ''Year'', ''Source'', ''Cited by'']
        \<and> map_of df l = None \<longrightarrow>
      (\<exists>ms. adjust_scopus df = Inl (KeyError ms) \<and> l \<in> set ms
            \<and> list_all (\<lambda>m. map_of df m = None) ms))
   \<and> (l \<in> set [''Author'', ''Title'', ''PubDate'', ''Source'', ''Cited by'']
        \<and> map_of df l = None \<longrightarrow>
      (\<exists>ms. adjust_proquest dt_year df = Inl (KeyError ms) \<and> l \<in> set ms
            \<and> list_all (\<lambda>m. map_of df m = None) ms))"
proof (intro conjI impI; elim conjE)
  assume l: "l \<in> set [''Author Full Names'', ''Article Title'', ''Publication Year'',
              ''Times Cited, WoS Core'']"
    and m: "map_of df l = None"
  let ?df = "setitem df ''Database'' (replicate (nrows df) (Str ''Web of Science''))"
  let ?ls = "[''Author Full Names'', ''Article Title'', ''Publication Year'',
                  ''Database'', ''Times Cited, WoS Core'']"
  let ?ms = "filter (\<lambda>l. map_of ?df l = None) ?ls"
  from l have ne: "l \<noteq> ''Database''" by auto
  from l have l5: "l \<in> set ?ls" by auto
  have same: "map_of ?df k = None \<Longrightarrow> map_of df k = None" for k
    by (simp add: setitem_def update_conv split: if_splits)
  from ne m have m': "map_of ?df l = None"
    by (simp add: setitem_def update_conv)
  have "adjust_wos df = Inl (KeyError ?ms)"
    unfolding adjust_wos_def Let_def getitem_list_missing[OF l5 m'] bind_Inl ..
  moreover have "l \<in> set ?ms" by (rule missing_labels(1)[OF l5 m'])
  moreover have "list_all (\<lambda>m. map_of df m = None) ?ms"
    unfolding list_all_iff set_filter using same by blast
  ultimately show "\<exists>ms. adjust_wos df = Inl (KeyError ms) \<and> l \<in> set ms
            \<and> list_all (\<lambda>m. map_of df m = None) ms" by blast
next
  assume l: "l \<in> set [''Author full names'', ''Title'', ''Year'', ''Source'', ''Cited by'']"
    and m: "map_of df l = None"
  have "adjust_scopus df = Inl (KeyError (filter (\<lambda>l. map_of df l = None)
          [''Author full names'', ''Title'', ''Year'', ''Source'', ''Cited by'']))"
    unfolding adjust_scopus_def getitem_list_missing[OF l m] bind_Inl ..
  with missing_labels[OF l m]
  show "\<exists>ms. adjust_scopus df = Inl (KeyError ms) \<and> l \<in> set ms
            \<and> list_all (\<lambda>m. map_of df m = None) ms" by blast
next
  assume l: "l \<in> set [''Author'', ''Title'', ''PubDate'', ''Source'', ''Cited by'']"
    and m: "map_of df l = None"
  have "adjust_proquest dt_year df = Inl (KeyError (filter (\<lambda>l. map_of df l = None)
          [''Author'', ''Title'', ''PubDate'', ''Source'', ''Cited by'']))"
    unfolding adjust_proquest_def getitem_list_missing[OF l m] bind_Inl ..
  with missing_labels[OF l m]
  show "\<exists>ms. adjust_proquest dt_year df = Inl (KeyError ms) \<and> l \<in> set ms
            \<and> list_all (\<lambda>m. map_of df m = None) ms" by blast
qed

theorem missing_column_raises_witness:
  "map_of wos_no_year ''Publication Year'' = None
   \<and> (\<exists>ms. adjust_wos wos_no_year = Inl (KeyError ms) \<and> ''Publication Year'' \<in> set ms)
   \<and> adjust_wos wos_no_year = Inl (KeyError [''Publication Year''])
   \<and> map_of scopus_no_cited_by ''Cited by'' = None
   \<and> (\<exists>ms. adjust_scopus scopus_no_cited_by = Inl (KeyError ms) \<and> ''Cited by'' \<in> set ms)
   \<and> adjust_scopus scopus_no_cited_by = Inl (KeyError [''Cited by''])
   \<and> map_of proquest_no_author ''Author'' = None
   \<and> (\<exists>ms. adjust_proquest (\<lambda>col. Inr [Num 2021]) proquest_no_author = Inl (KeyError ms)
          \<and> ''Author'' \<in> set ms)
   \<and> adjust_proquest (\<lambda>col. Inr [Num 2021]) proquest_no_author = Inl (KeyError [''Author''])"
proof -
  have w: "''Publication Year'' \<in> set [''Author Full Names'', ''Article Title'',
             ''Publication Year'', ''Times Cited, WoS Core'']
           \<and> map_of wos_no_year ''Publication Year'' = None"
    by code_simp
  have s: "''Cited by'' \<in> set [''Author full names'', ''Title'', ''Year'', ''Source'', ''Cited by'']
           \<and> map_of scopus_no_cited_by ''Cited by'' = None"
    by code_simp
  have p: "''Author'' \<in> set [''Author'', ''Title'', ''PubDate'', ''Source'', ''Cited by'']
           \<and> map_of proquest_no_author ''Author'' = None"
    by code_simp
  have e: "adjust_wos wos_no_year = Inl (KeyError [''Publication Year''])"
    "adjust_scopus scopus_no_cited_by = Inl (KeyError [''Cited by''])"
    "adjust_proquest (\<lambda>col. Inr [Num 2021]) proquest_no_author = Inl (KeyError [''Author''])"
    by code_simp+
  note n = missing_column_raises
  from n[THEN conjunct1, THEN mp, OF w] n[THEN conjunct2, THEN conjunct1, THEN mp, OF s]
    n[THEN conjunct2, THEN conjunct2, THEN mp, OF p] w s p e
  show ?thesis by blast
qed

section \<open>Properties of the loader\<close>

text \<open>
  Claim C6. A path that ends in \<open>.csv\<close> is read by the delimited-text parser alone,
  whatever the spreadsheet parser would make of it; any other path is read by the
  spreadsheet parser; when that parser raises, \<open>read_file\<close> prints the diagnostic and
  returns \<open>None\<close>: no table, and no exception leaves the function.
\<close>

theorem read_file_dispatch:
  "(endswith filename ''.csv'' \<longrightarrow>
      read_file read_csv read_excel filename =
        (case read_csv filename of Inl e \<Rightarrow> ([], Inl e) | Inr df \<Rightarrow> ([], Inr (Some df))))
   \<and> (\<not> endswith filename ''.csv'' \<and> read_excel filename = Inr df \<longrightarrow>
      read_file read_csv read_excel filename = ([], Inr (Some df)))
   \<and> (\<not> endswith filename ''.csv'' \<and> read_excel filename = Inl e \<longrightarrow>
      read_file read_csv read_excel filename = ([''Wrong file format''], Inr None))"
  by (simp add: read_file_def)

theorem read_file_dispatch_witness:
  "endswith ''wos.csv'' ''.csv''
   \<and> read_file (\<lambda>f. Inr wos_sample) (\<lambda>f. Inl AttributeError) ''wos.csv'' = ([], Inr (Some wos_sample))
   \<and> \<not> endswith ''scopus.xlsx'' ''.csv''
   \<and> read_file (\<lambda>f. Inl ParseError) (\<lambda>f. Inr scopus_sample) ''scopus.xlsx''
       = ([], Inr (Some scopus_sample))
   \<and> \<not> endswith ''notes.txt'' ''.csv''
   \<and> read_file (\<lambda>f. Inr wos_sample) (\<lambda>f. Inl ParseError) ''notes.txt''
       = ([''Wrong file format''], Inr None)"
proof -
  have a: "endswith ''wos.csv'' ''.csv''" by code_simp
  have b: "\<not> endswith ''scopus.xlsx'' ''.csv'' \<and> (\<lambda>f. Inr scopus_sample) ''scopus.xlsx'' = (Inr scopus_sample :: error + dataframe)"
    by code_simp
  have c: "\<not> endswith ''notes.txt'' ''.csv'' \<and> (\<lambda>f. Inl ParseError) ''notes.txt'' = (Inl ParseError :: error + dataframe)"
    by code_simp
  note n = read_file_dispatch
  from n[where read_csv = "\<lambda>f. Inr wos_sample" and read_excel = "\<lambda>f. Inl AttributeError", THEN conjunct1, THEN mp, OF a]
    n[where read_csv = "\<lambda>f. Inl ParseError" and read_excel = "\<lambda>f. Inr scopus_sample", THEN conjunct2, THEN conjunct1, THEN mp, OF b]
    n[where read_csv = "\<lambda>f. Inr wos_sample" and read_excel = "\<lambda>f. Inl ParseError", THEN conjunct2, THEN conjunct2, THEN mp, OF c]
    a b c
  show ?thesis by simp
qed

text \<open>
  Claim C10. When the path ends in \<open>.csv\<close> and the delimited-text parser raises,
  the exception leaves \<open>read_file\<close> and nothing is printed.
\<close>

theorem read_file_csv_error_propagates:
  "endswith filename ''.csv'' \<and> read_csv filename = Inl e \<longrightarrow>
     read_file read_csv read_excel filename = ([], Inl e)"
  by (simp add: read_file_def)

theorem read_file_csv_error_propagates_witness:
  "endswith ''broken.csv'' ''.csv''
   \<and> read_file (\<lambda>f. Inl ParseError) (\<lambda>f. Inr wos_sample) ''broken.csv'' = ([], Inl ParseError)"
proof -
  have a: "endswith ''broken.csv'' ''.csv'' \<and> (\<lambda>f. Inl ParseError) ''broken.csv'' = (Inl ParseError :: error + dataframe)"
    by code_simp
  from read_file_csv_error_propagates[where read_csv = "\<lambda>f. Inl ParseError" and read_excel = "\<lambda>f. Inr wos_sample", THEN mp, OF a] a
  show ?thesis by simp
qed

section \<open>Properties of the deduplicator\<close>

text \<open>The two sample routines keep the promise of \<open>numpy.argsort\<close>.\<close>

lemma stable_argsort_ok: "argsort_ok stable_argsort"
  by (simp add: argsort_ok_def stable_argsort_def)


lemma argsort_take:
  assumes "argsort_ok argsort"
  shows "map (\<lambda>j. map fst ps ! j) (argsort (map snd ps))
           = map fst (map (\<lambda>j. ps ! j) (argsort (map snd ps)))
         \<and> mset (map (\<lambda>j. ps ! j) (argsort (map snd ps))) = mset ps
         \<and> sorted (map snd (map (\<lambda>j. ps ! j) (argsort (map snd ps))))"
proof -
  let ?js = "argsort (map snd ps)"
  let ?qs = "map (\<lambda>j. ps ! j) ?js"
  from assms have m: "mset ?js = mset [0..<length ps]"
    and s: "sorted (map (\<lambda>i. map snd ps ! i) ?js)"
    by (simp_all add: argsort_ok_def)
  from m have "set ?js = set [0..<length ps]" by (rule mset_eq_setD)
  then have lt: "j < length ps" if "j \<in> set ?js" for j using that by simp
  have "map (\<lambda>j. map fst ps ! j) ?js = map fst ?qs"
    using lt by simp
  moreover have "mset ?qs = mset ps"
  proof -
    have "mset ?qs = image_mset (\<lambda>j. ps ! j) (mset ?js)" by simp
    also have "\<dots> = mset (map (\<lambda>j. ps ! j) [0..<length ps])" by (simp only: m mset_map)
    also have "\<dots> = mset ps" by (simp only: map_nth)
    finally show ?thesis .
  qed
  moreover have "sorted (map snd ?qs)"
  proof -
    have e: "map snd ?qs = map (\<lambda>i. map snd ps ! i) ?js"
      using lt by simp
    show ?thesis unfolding e by (rule s)
  qed
  ultimately show ?thesis by blast
qed

lemma enumerate_nth: "List.enumerate 0 xs = map (\<lambda>i. (i, xs ! i)) [0..<length xs]"
  by (rule nth_equalityI) (simp_all add: nth_enumerate_eq)

lemma map_filter_map: "List.map_filter f (map g xs) = List.map_filter (\<lambda>x. f (g x)) xs"
  by (induction xs) (auto simp: List.map_filter_simps split: option.splits)

lemma map_filter_fst:
  "map fst (List.map_filter (\<lambda>i. map_option (Pair i) (F i)) xs) = filter (\<lambda>i. F i \<noteq> None) xs"
  by (induction xs) (auto simp: List.map_filter_simps split: option.splits)

lemma map_filter_snd:
  "(i, v) \<in> set (List.map_filter (\<lambda>i. map_option (Pair i) (F i)) xs) \<Longrightarrow> i \<in> set xs \<and> F i = Some v"
  by (induction xs) (auto simp: List.map_filter_simps split: option.splits)

lemma take_filter_nth:
  "map (\<lambda>i. xs ! i) (filter (\<lambda>i. P (xs ! i)) [0..<length xs]) = filter P xs"
proof -
  have "filter P xs = filter P (map (\<lambda>i. xs ! i) [0..<length xs])" by (simp only: map_nth)
  also have "\<dots> = map (\<lambda>i. xs ! i) (filter (\<lambda>i. P (xs ! i)) [0..<length xs])"
    by (simp only: filter_map comp_def)
  finally show ?thesis ..
qed

lemma filter_nth_map:
  "filter (\<lambda>i. P (map f xs ! i)) [0..<length xs] = filter (\<lambda>i. P (f (xs ! i))) [0..<length xs]"
  by (rule filter_cong) simp_all

lemma stable_argsort_take:
  "filter (\<lambda>p. snd p = v) (map (\<lambda>j. ps ! j) (stable_argsort (map snd ps)))
     = filter (\<lambda>p. snd p = v) ps"
proof -
  let ?m = "length ps"
  let ?f = "\<lambda>j. map snd ps ! j"
  let ?js = "sort_key ?f [0..<?m]"
  have js: "stable_argsort (map snd ps) = ?js" by (simp add: stable_argsort_def)
  have "filter (\<lambda>p. snd p = v) (map (\<lambda>j. ps ! j) ?js)
          = map (\<lambda>j. ps ! j) (filter (\<lambda>j. snd (ps ! j) = v) ?js)"
    by (simp add: filter_map comp_def)
  also have "filter (\<lambda>j. snd (ps ! j) = v) ?js = filter (\<lambda>j. ?f j = v) ?js"
    by (rule filter_cong) simp_all
  also have "\<dots> = filter (\<lambda>j. ?f j = v) [0..<?m]"
    by (rule sort_key_stable)
  also have "\<dots> = filter (\<lambda>j. snd (ps ! j) = v) [0..<?m]"
    by (rule filter_cong) simp_all
  also have "map (\<lambda>j. ps ! j) (filter (\<lambda>j. snd (ps ! j) = v) [0..<?m]) = filter (\<lambda>p. snd p = v) ps"
    by (rule take_filter_nth)
  finally show ?thesis unfolding js .
qed

lemma sort_values_split:
  assumes ok: "argsort_ok argsort"
  shows "\<exists>qs. sort_values argsort by_col ascending rs = qs @ filter (\<lambda>r. by_col r = None) rs
           \<and> mset qs = mset (filter (\<lambda>r. by_col r \<noteq> None) rs)
           \<and> sorted (map (\<lambda>r. the (by_col r)) (if ascending then qs else rev qs))
           \<and> (argsort = stable_argsort \<longrightarrow>
                (\<forall>v. filter (\<lambda>r. by_col r = Some v) qs = filter (\<lambda>r. by_col r = Some v) rs))"
proof -
  let ?n = "length rs"
  let ?items = "map by_col rs"
  let ?F = "\<lambda>i. ?items ! i"
  let ?nn = "List.map_filter (\<lambda>i. map_option (Pair i) (?F i)) [0..<?n]"
  let ?nan = "filter (\<lambda>i. by_col (rs ! i) = None) [0..<?n]"
  let ?ps = "if ascending then ?nn else rev ?nn"
  have nn: "List.map_filter (\<lambda>(i, x). map_option (Pair i) x) (List.enumerate 0 ?items) = ?nn"
    by (simp add: enumerate_nth map_filter_map)
  have nan: "map fst (filter (\<lambda>(i, x). x = None) (List.enumerate 0 ?items)) = ?nan"
  proof -
    have "map fst (filter (\<lambda>(i, x). x = None) (List.enumerate 0 ?items))
            = filter (\<lambda>i. ?F i = None) [0..<?n]"
      by (simp add: enumerate_nth filter_map comp_def)
    also have "\<dots> = ?nan"
      by (rule filter_nth_map[where P = "\<lambda>x. x = None"])
    finally show ?thesis .
  qed
  define qs where "qs = map (\<lambda>j. ?ps ! j) (argsort (map snd ?ps))"
  from argsort_take[OF ok, of ?ps] have
    q1: "map (\<lambda>j. map fst ?ps ! j) (argsort (map snd ?ps)) = map fst qs"
    and q2: "mset qs = mset ?ps" and q3: "sorted (map snd qs)"
    unfolding qs_def by blast+
  let ?qs = "if ascending then qs else rev qs"
  have ix: "nargsort argsort ascending ?items = map fst ?qs @ ?nan"
    unfolding nargsort_def Let_def nn nan using q1 by (cases ascending) (simp_all add: rev_map)
  have set_qs: "set qs = set ?nn" using q2[THEN mset_eq_setD] by simp
  have val_nn: "i < ?n \<and> by_col (rs ! i) = Some v" if "(i, v) \<in> set ?nn" for i v
    using map_filter_snd[of i v ?F "[0..<?n]"] that by auto
  have val: "i < ?n \<and> by_col (rs ! i) = Some v" if "(i, v) \<in> set qs" for i v
    using val_nn that set_qs by simp
  let ?Q = "map (\<lambda>i. rs ! i) (map fst ?qs)"
  have "sort_values argsort by_col ascending rs = ?Q @ map (\<lambda>i. rs ! i) ?nan"
    unfolding sort_values_def ix by simp
  also have "map (\<lambda>i. rs ! i) ?nan = filter (\<lambda>r. by_col r = None) rs"
    by (rule take_filter_nth)
  finally have f1: "sort_values argsort by_col ascending rs = ?Q @ filter (\<lambda>r. by_col r = None) rs" .
  have rows_nn: "map (\<lambda>i. rs ! i) (map fst ?nn) = filter (\<lambda>r. by_col r \<noteq> None) rs"
  proof -
    have e: "map fst ?nn = filter (\<lambda>i. by_col (rs ! i) \<noteq> None) [0..<?n]"
      unfolding map_filter_fst by (rule filter_nth_map[where P = "\<lambda>x. x \<noteq> None"])
    show ?thesis unfolding e by (rule take_filter_nth)
  qed
  have f2: "mset ?Q = mset (filter (\<lambda>r. by_col r \<noteq> None) rs)"
  proof -
    have "mset ?Q = mset (map (\<lambda>i. rs ! i) (map fst qs))" by simp
    also have "\<dots> = image_mset (\<lambda>p. rs ! fst p) (mset qs)" by (simp add: comp_def)
    also have "\<dots> = image_mset (\<lambda>p. rs ! fst p) (mset ?nn)" using q2 by simp
    also have "\<dots> = mset (map (\<lambda>i. rs ! i) (map fst ?nn))" by (simp add: comp_def)
    finally show ?thesis unfolding rows_nn .
  qed
  have f3: "sorted (map (\<lambda>r. the (by_col r)) (if ascending then ?Q else rev ?Q))"
  proof -
    have a: "map (\<lambda>r. the (by_col r)) (map (\<lambda>i. rs ! i) (map fst qs)) = map snd qs"
      using val by (auto simp: comp_def)
    have b: "(if ascending then ?Q else rev ?Q) = map (\<lambda>i. rs ! i) (map fst qs)"
      by (simp add: rev_map)
    show ?thesis unfolding b a by (rule q3)
  qed
  have f4: "filter (\<lambda>r. by_col r = Some v) ?Q = filter (\<lambda>r. by_col r = Some v) rs"
    if st: "argsort = stable_argsort" for v
  proof -
    have pick: "filter (\<lambda>r. by_col r = Some v) (map (\<lambda>p. rs ! fst p) xs)
                  = map (\<lambda>p. rs ! fst p) (filter (\<lambda>p. snd p = v) xs)"
      if "set xs \<subseteq> set ?nn" for xs
    proof -
      have "filter (\<lambda>r. by_col r = Some v) (map (\<lambda>p. rs ! fst p) xs)
              = map (\<lambda>p. rs ! fst p) (filter (\<lambda>p. by_col (rs ! fst p) = Some v) xs)"
        by (simp add: filter_map comp_def)
      also have "filter (\<lambda>p. by_col (rs ! fst p) = Some v) xs = filter (\<lambda>p. snd p = v) xs"
      proof (rule filter_cong[OF refl])
        fix p assume "p \<in> set xs"
        with that have "p \<in> set ?nn" by blast
        with val_nn[of "fst p" "snd p"] show "(by_col (rs ! fst p) = Some v) = (snd p = v)"
          by simp
      qed
      finally show ?thesis .
    qed
    have qs_nn: "filter (\<lambda>p. snd p = v) ?qs = filter (\<lambda>p. snd p = v) ?nn"
      unfolding qs_def st by (cases ascending) (simp_all add: stable_argsort_take flip: rev_filter)
    have "filter (\<lambda>r. by_col r = Some v) ?Q
            = filter (\<lambda>r. by_col r = Some v) (map (\<lambda>p. rs ! fst p) ?qs)"
      by (simp add: comp_def)
    also have "\<dots> = map (\<lambda>p. rs ! fst p) (filter (\<lambda>p. snd p = v) ?qs)"
      by (rule pick) (use set_qs in auto)
    also have "\<dots> = map (\<lambda>p. rs ! fst p) (filter (\<lambda>p. snd p = v) ?nn)"
      by (simp only: qs_nn)
    also have "\<dots> = filter (\<lambda>r. by_col r = Some v) (map (\<lambda>p. rs ! fst p) ?nn)"
      by (rule pick[symmetric]) simp
    also have "map (\<lambda>p. rs ! fst p) ?nn = filter (\<lambda>r. by_col r \<noteq> None) rs"
      using rows_nn by (simp add: comp_def)
    also have "filter (\<lambda>r. by_col r = Some v) (filter (\<lambda>r. by_col r \<noteq> None) rs)
                 = filter (\<lambda>r. by_col r = Some v) rs"
      unfolding filter_filter by (rule filter_cong) auto
    finally show ?thesis .
  qed
  from f1 f2 f3 f4 show ?thesis by (intro exI[of _ ?Q] conjI impI allI)
qed

lemma sort_values_mset:
  assumes "argsort_ok argsort"
  shows "mset (sort_values argsort by_col ascending rs) = mset rs"
proof -
  from sort_values_split[OF assms, of by_col ascending rs] obtain qs where
    "sort_values argsort by_col ascending rs = qs @ filter (\<lambda>r. by_col r = None) rs"
    "mset qs = mset (filter (\<lambda>r. by_col r \<noteq> None) rs)" by blast
  then show ?thesis by (simp add: union_commute)
qed

lemma sort_values_set:
  "argsort_ok argsort \<Longrightarrow> set (sort_values argsort by_col ascending rs) = set rs"
  by (rule mset_eq_setD) (rule sort_values_mset)

lemma sort_values_length:
  "argsort_ok argsort \<Longrightarrow> length (sort_values argsort by_col ascending rs) = length rs"
  by (rule mset_eq_length) (rule sort_values_mset)

lemma sort_values_citations:
  assumes "argsort_ok argsort"
  shows "\<exists>qs. sort_values argsort Citations False rs = qs @ filter (\<lambda>r. Citations r = None) rs
           \<and> list_all (\<lambda>r. Citations r \<noteq> None) qs
           \<and> sorted_wrt (\<lambda>a b. cit_ge (Citations a) (Citations b)) qs"
proof -
  from sort_values_split[OF assms, of Citations False rs] obtain qs where
    s: "sort_values argsort Citations False rs = qs @ filter (\<lambda>r. Citations r = None) rs"
    and m: "mset qs = mset (filter (\<lambda>r. Citations r \<noteq> None) rs)"
    and o: "sorted (map (\<lambda>r. the (Citations r)) (rev qs))" by auto
  from m[THEN mset_eq_setD] have some: "Citations r \<noteq> None" if "r \<in> set qs" for r
    using that by simp
  from o have "sorted_wrt (\<lambda>a b. the (Citations b) \<le> the (Citations a)) qs"
    by (simp add: sorted_wrt_rev sorted_wrt_map flip: rev_map)
  then have "sorted_wrt (\<lambda>a b. cit_ge (Citations a) (Citations b)) qs"
  proof (rule sorted_wrt_mono_rel[rotated])
    fix a b
    assume "a \<in> set qs" "b \<in> set qs" "the (Citations b) \<le> the (Citations a)"
    with some[of a] some[of b] show "cit_ge (Citations a) (Citations b)"
      by (cases "Citations a"; cases "Citations b") simp_all
  qed
  with s some show ?thesis by (auto simp: list_all_iff)
qed

lemma cit_ge_None [simp]: "cit_ge c None"
  by (cases c) simp_all

lemma cit_ge_refl [simp]: "cit_ge c c"
  by (cases c) simp_all

lemma sort_values_citations_sorted:
  assumes "argsort_ok argsort"
  shows "sorted_wrt (\<lambda>a b. cit_ge (Citations a) (Citations b)) (sort_values argsort Citations False rs)"
proof -
  from sort_values_citations[OF assms, of rs] obtain qs where
    s: "sort_values argsort Citations False rs = qs @ filter (\<lambda>r. Citations r = None) rs"
    and o: "sorted_wrt (\<lambda>a b. cit_ge (Citations a) (Citations b)) qs" by blast
  have "sorted_wrt (\<lambda>a b. cit_ge (Citations a) (Citations b)) (filter (\<lambda>r. Citations r = None) rs)"
    by (induction rs) auto
  with o show ?thesis unfolding s by (auto simp: sorted_wrt_append)
qed


lemma drop_seen_subset: "set (drop_seen seen rs) \<subseteq> set rs"
  by (induction seen rs rule: drop_seen.induct) auto

lemma drop_seen_keys: "key ` set (drop_seen seen rs) = key ` set rs - set seen"
  by (induction seen rs rule: drop_seen.induct) auto

lemma drop_seen_distinct: "distinct (map key (drop_seen seen rs))"
proof (induction seen rs rule: drop_seen.induct)
  case (1 seen)
  show ?case by simp
next
  case (2 seen r rs)
  show ?case
  proof (cases "key r \<in> set seen")
    case True
    with 2 show ?thesis by simp
  next
    case False
    have "key r \<notin> key ` set (drop_seen (key r # seen) rs)"
      unfolding drop_seen_keys by simp
    with False 2 show ?thesis by simp
  qed
qed

lemma drop_seen_first:
  assumes "sorted_wrt R rs" and "r \<in> set rs" and "key r \<notin> set seen"
  shows "\<exists>k \<in> set (drop_seen seen rs). key k = key r \<and> (k = r \<or> R k r)"
  using assms
proof (induction seen rs rule: drop_seen.induct)
  case (1 seen)
  then show ?case by simp
next
  case (2 seen x rs)
  show ?case
  proof (cases "key x \<in> set seen")
    case True
    with 2 show ?thesis by auto
  next
    case False
    show ?thesis
    proof (cases "key r = key x")
      case True
      with False 2 show ?thesis by auto
    next
      case diff: False
      with 2 False have "\<exists>k \<in> set (drop_seen (key x # seen) rs). key k = key r \<and> (k = r \<or> R k r)"
        by auto
      with False show ?thesis by auto
    qed
  qed
qed


lemma unidecode_rows:
  "(\<lambda>r. r\<lparr>Title := unidecode tab (Title r)\<rparr>) \<circ> (\<lambda>r. r\<lparr>Authors := unidecode tab (Authors r)\<rparr>)
     = unidecode_row tab"
  by (rule ext) (simp add: unidecode_row_def)

lemma rem_duplicates_eq:
  "rem_duplicates tab argsort_int argsort_str df =
     (df\<lparr>rows := map (unidecode_row tab) (rows df)\<rparr>,
      \<lparr>columns = ''Title'' # filter (\<lambda>col. col \<noteq> ''Title'') (columns df),
       rows = sort_values argsort_str (\<lambda>r. Some (Title r)) True
                (drop_duplicates (sort_values argsort_int Citations False
                   (map (unidecode_row tab) (rows df))))\<rparr>,
      length (drop_duplicates (sort_values argsort_int Citations False
                   (map (unidecode_row tab) (rows df)))),
      length (rows df))" if "argsort_ok argsort_int" "argsort_ok argsort_str"
  using that
  by (simp add: rem_duplicates_def Let_def unidecode_rows sort_values_length)

lemma key_unidecode_row: "key (unidecode_row tab r) = nkey tab r"
  by (simp add: key_def nkey_def unidecode_row_def)

lemma citations_unidecode_row: "Citations (unidecode_row tab r) = Citations r"
  by (simp add: unidecode_row_def)

lemma rem_duplicates_rows:
  assumes oi: "argsort_ok argsort_int" and os: "argsort_ok argsort_str"
    and rd: "rem_duplicates tab argsort_int argsort_str df = (df', df_uniques, n_uniques, n)"
  shows "distinct (map key (rows df_uniques))"
    and "key ` set (rows df_uniques) = nkey tab ` set (rows df)"
    and "set (rows df_uniques) \<subseteq> unidecode_row tab ` set (rows df)"
    and "r \<in> set (rows df) \<Longrightarrow>
           \<exists>k \<in> set (rows df_uniques). key k = nkey tab r \<and> cit_ge (Citations k) (Citations r)"
    and "n_uniques = length (rows df_uniques)"
    and "n = length (rows df)"
    and "df' = df\<lparr>rows := map (unidecode_row tab) (rows df)\<rparr>"
    and "columns df_uniques = ''Title'' # filter (\<lambda>col. col \<noteq> ''Title'') (columns df)"
proof -
  let ?N = "map (unidecode_row tab) (rows df)"
  let ?S = "sort_values argsort_int Citations False ?N"
  let ?D = "drop_duplicates ?S"
  let ?R = "sort_values argsort_str (\<lambda>r. Some (Title r)) True ?D"
  from rd have R: "rows df_uniques = ?R"
    and nu: "n_uniques = length ?D" and n: "n = length (rows df)"
    and d: "df' = df\<lparr>rows := ?N\<rparr>"
    and c: "columns df_uniques = ''Title'' # filter (\<lambda>col. col \<noteq> ''Title'') (columns df)"
    unfolding rem_duplicates_eq[OF oi os] by auto
  have mR: "mset ?R = mset ?D" by (rule sort_values_mset[OF os])
  have sR: "set ?R = set ?D" by (rule sort_values_set[OF os])
  have sS: "set ?S = set ?N" by (rule sort_values_set[OF oi])
  have "mset (map key ?R) = mset (map key ?D)" using mR by (metis mset_map)
  then have "distinct (map key ?R) = distinct (map key ?D)"
    by (rule mset_eq_imp_distinct_iff)
  then show "distinct (map key (rows df_uniques))"
    unfolding R by (simp add: drop_duplicates_def drop_seen_distinct)
  show "key ` set (rows df_uniques) = nkey tab ` set (rows df)"
    unfolding R sR by (simp add: drop_duplicates_def drop_seen_keys sS image_image key_unidecode_row)
  show "set (rows df_uniques) \<subseteq> unidecode_row tab ` set (rows df)"
    unfolding R sR using drop_seen_subset[of "[]" ?S] by (simp add: drop_duplicates_def sS)
  show "n_uniques = length (rows df_uniques)"
    unfolding R nu by (simp add: sort_values_length[OF os])
  show "n = length (rows df)" by (rule n)
  show "df' = df\<lparr>rows := map (unidecode_row tab) (rows df)\<rparr>" by (rule d)
  show "columns df_uniques = ''Title'' # filter (\<lambda>col. col \<noteq> ''Title'') (columns df)" by (rule c)
  show "\<exists>k \<in> set (rows df_uniques). key k = nkey tab r \<and> cit_ge (Citations k) (Citations r)"
    if "r \<in> set (rows df)"
  proof -
    from that have "unidecode_row tab r \<in> set ?S" unfolding sS by simp
    from drop_seen_first[OF sort_values_citations_sorted[OF oi] this, of "[]"]
    obtain k where "k \<in> set ?D" "key k = key (unidecode_row tab r)"
      "k = unidecode_row tab r \<or> cit_ge (Citations k) (Citations (unidecode_row tab r))"
      unfolding drop_duplicates_def by auto
    then show ?thesis unfolding R sR
      by (auto simp: key_unidecode_row citations_unidecode_row)
  qed
qed






lemma same_key_same_row:
  "distinct (map key rs) \<Longrightarrow> k \<in> set rs \<Longrightarrow> k' \<in> set rs \<Longrightarrow> key k = key k' \<Longrightarrow> k = k'"
  by (auto simp: distinct_map dest: inj_onD)


lemma unidecode_of_ascii:
  "list_all (\<lambda>d. (of_char d :: nat) < 128) s \<Longrightarrow> unidecode tab s = s"
  by (induction s) (auto simp: unidecode_def)










text \<open>
  Claim C2. In the deduplicated table the triples of \<open>Authors\<close>, \<open>Title\<close> and \<open>Year\<close> are
  pairwise different; every row of the merged table has exactly one row of the
  deduplicated table with its normalised key; every deduplicated row is a normalised row
  of the merged table, and there are as many of them as there are different normalised
  keys, so rows with different keys are never merged.
\<close>

theorem key_uniqueness:
  assumes oi: "argsort_ok argsort_int" and os: "argsort_ok argsort_str"
  shows "rem_duplicates tab argsort_int argsort_str df = (df', df_uniques, n_uniques, n) \<longrightarrow>
          distinct (map key (rows df_uniques))
          \<and> (\<forall>r \<in> set (rows df). \<exists>!k. k \<in> set (rows df_uniques) \<and> key k = nkey tab r)
          \<and> set (rows df_uniques) \<subseteq> unidecode_row tab ` set (rows df)
          \<and> length (rows df_uniques) = card (nkey tab ` set (rows df))
          \<and> n_uniques = length (rows df_uniques)"
proof
  assume rd: "rem_duplicates tab argsort_int argsort_str df = (df', df_uniques, n_uniques, n)"
  note f = rem_duplicates_rows[OF oi os rd]
  have ex1: "\<exists>!k. k \<in> set (rows df_uniques) \<and> key k = nkey tab r" if r: "r \<in> set (rows df)" for r
  proof -
    from f(4)[OF r] obtain k where k: "k \<in> set (rows df_uniques)" "key k = nkey tab r" by blast
    show ?thesis
    proof (rule ex1I[of _ k])
      show "k \<in> set (rows df_uniques) \<and> key k = nkey tab r" using k by simp
    next
      fix k' assume "k' \<in> set (rows df_uniques) \<and> key k' = nkey tab r"
      with same_key_same_row[OF f(1), of k' k] k show "k' = k" by simp
    qed
  qed
  have "length (rows df_uniques) = length (map key (rows df_uniques))" by simp
  also have "\<dots> = card (set (map key (rows df_uniques)))"
    using f(1) by (rule distinct_card[symmetric])
  also have "\<dots> = card (nkey tab ` set (rows df))" using f(2) by simp
  finally have card: "length (rows df_uniques) = card (nkey tab ` set (rows df))" .
  from f(1) ex1 f(3) card f(5)
  show "distinct (map key (rows df_uniques))
          \<and> (\<forall>r \<in> set (rows df). \<exists>!k. k \<in> set (rows df_uniques) \<and> key k = nkey tab r)
          \<and> set (rows df_uniques) \<subseteq> unidecode_row tab ` set (rows df)
          \<and> length (rows df_uniques) = card (nkey tab ` set (rows df))
          \<and> n_uniques = length (rows df_uniques)" by blast
qed

theorem key_uniqueness_witness:
  "argsort_ok (stable_argsort :: int list \<Rightarrow> nat list)
   \<and> argsort_ok (stable_argsort :: string list \<Rightarrow> nat list)
   \<and> rem_duplicates latin1_table stable_argsort stable_argsort mixed_table =
       (fst (rem_duplicates latin1_table stable_argsort stable_argsort mixed_table),
        fst (snd (rem_duplicates latin1_table stable_argsort stable_argsort mixed_table)),
        3, 4)
   \<and> distinct (map key (rows (fst (snd (rem_duplicates latin1_table stable_argsort
                                            stable_argsort mixed_table)))))
   \<and> length (rows (fst (snd (rem_duplicates latin1_table stable_argsort stable_argsort
                                 mixed_table)))) = card (nkey latin1_table ` set (rows mixed_table))
   \<and> map key (rows (fst (snd (rem_duplicates latin1_table stable_argsort stable_argsort
                                  mixed_table)))) =
       [(''lee'', ''a'', 2021), (''jones'', ''ete'', 2019), (''smith'', ''x'', 2020)]"
proof -
  have oi: "argsort_ok (stable_argsort :: int list \<Rightarrow> nat list)"
    and os: "argsort_ok (stable_argsort :: string list \<Rightarrow> nat list)"
    by (rule stable_argsort_ok)+
  have e: "rem_duplicates latin1_table stable_argsort stable_argsort mixed_table =
       (fst (rem_duplicates latin1_table stable_argsort stable_argsort mixed_table),
        fst (snd (rem_duplicates latin1_table stable_argsort stable_argsort mixed_table)),
        3, 4)"
    by code_simp
  have k: "map key (rows (fst (snd (rem_duplicates latin1_table stable_argsort stable_argsort
                                  mixed_table)))) =
       [(''lee'', ''a'', 2021), (''jones'', ''ete'', 2019), (''smith'', ''x'', 2020)]"
    by code_simp
  from key_uniqueness[OF oi os, THEN mp, OF e] oi os e k
  show ?thesis by (intro conjI) blast+
qed




text \<open>
  Claim C8, as stated, fails: \<open>rem_duplicates\<close> assigns to the columns \<open>Authors\<close> and
  \<open>Title\<close> of the table it is given. A title with an accented letter is rewritten in the
  caller's table.
\<close>

theorem rem_duplicates_rewrites_input:
  "fst (rem_duplicates latin1_table stable_argsort stable_argsort accent_table) \<noteq> accent_table
   \<and> map Title (rows accent_table) = [[CHR 0xE9]]
   \<and> map Title (rows (fst (rem_duplicates latin1_table stable_argsort stable_argsort
                             accent_table))) = [''e'']"
  by code_simp

text \<open>
  Claim C8, amended. After \<open>rem_duplicates\<close> the table it was given holds the \<open>unidecode\<close>
  transliteration of every \<open>Authors\<close> and \<open>Title\<close>; its columns, the order of its rows
  and the fields \<open>Year\<close>, \<open>Database\<close> and \<open>Citations\<close> are as before, and the table is
  unchanged when every \<open>Authors\<close> and \<open>Title\<close> is ASCII text.
\<close>

theorem input_after_rem_duplicates:
  "fst (rem_duplicates tab argsort_int argsort_str df)
     = df\<lparr>rows := map (unidecode_row tab) (rows df)\<rparr>
   \<and> columns (fst (rem_duplicates tab argsort_int argsort_str df)) = columns df
   \<and> map Authors (rows (fst (rem_duplicates tab argsort_int argsort_str df)))
       = map (\<lambda>r. unidecode tab (Authors r)) (rows df)
   \<and> map Title (rows (fst (rem_duplicates tab argsort_int argsort_str df)))
       = map (\<lambda>r. unidecode tab (Title r)) (rows df)
   \<and> map Year (rows (fst (rem_duplicates tab argsort_int argsort_str df))) = map Year (rows df)
   \<and> map Database (rows (fst (rem_duplicates tab argsort_int argsort_str df)))
       = map Database (rows df)
   \<and> map Citations (rows (fst (rem_duplicates tab argsort_int argsort_str df)))
       = map Citations (rows df)
   \<and> (list_all (\<lambda>r. list_all (\<lambda>d. (of_char d :: nat) < 128) (Authors r)
                    \<and> list_all (\<lambda>d. (of_char d :: nat) < 128) (Title r)) (rows df) \<longrightarrow>
        fst (rem_duplicates tab argsort_int argsort_str df) = df)"
proof -
  have first: "fst (rem_duplicates tab argsort_int argsort_str df)
     = df\<lparr>rows := map (unidecode_row tab) (rows df)\<rparr>"
    by (simp add: rem_duplicates_def Let_def unidecode_rows)
  have "fst (rem_duplicates tab argsort_int argsort_str df) = df"
    if a: "list_all (\<lambda>r. list_all (\<lambda>d. (of_char d :: nat) < 128) (Authors r)
                    \<and> list_all (\<lambda>d. (of_char d :: nat) < 128) (Title r)) (rows df)"
  proof -
    have "map (unidecode_row tab) (rows df) = rows df"
    proof (rule map_idI)
      fix r assume "r \<in> set (rows df)"
      with a have "list_all (\<lambda>d. (of_char d :: nat) < 128) (Authors r)"
        and "list_all (\<lambda>d. (of_char d :: nat) < 128) (Title r)"
        by (simp_all add: list_all_iff)
      then show "unidecode_row tab r = r"
        by (simp add: unidecode_row_def unidecode_of_ascii)
    qed
    with first show ?thesis by simp
  qed
  with first show ?thesis
    by (simp add: unidecode_row_def comp_def)
qed

theorem input_after_rem_duplicates_witness:
  "list_all (\<lambda>r. list_all (\<lambda>d. (of_char d :: nat) < 128) (Authors r)
                    \<and> list_all (\<lambda>d. (of_char d :: nat) < 128) (Title r)) (rows tie_table)
   \<and> fst (rem_duplicates latin1_table stable_argsort stable_argsort tie_table) = tie_table
   \<and> fst (rem_duplicates latin1_table stable_argsort stable_argsort accent_table)
       = accent_table\<lparr>rows := map (unidecode_row latin1_table) (rows accent_table)\<rparr>"
proof -
  have a: "list_all (\<lambda>r. list_all (\<lambda>d. (of_char d :: nat) < 128) (Authors r)
                    \<and> list_all (\<lambda>d. (of_char d :: nat) < 128) (Title r)) (rows tie_table)"
    by code_simp
  note t = input_after_rem_duplicates
  from t[THEN conjunct2, THEN conjunct2, THEN conjunct2, THEN conjunct2, THEN conjunct2,
         THEN conjunct2, THEN conjunct2, THEN mp, OF a]
    t[THEN conjunct1, of latin1_table stable_argsort stable_argsort accent_table] a
  show ?thesis by (intro conjI)
qed





end
